theory Spec2Isabelle
  imports Complex_Main "HOL-Library.Sublist"
begin

section \<open>Numbers of the program\<close>

text \<open>
  The program computes with IEEE doubles (Python \<open>float\<close>, numpy \<open>float64\<close>). A cell of
  the table and a smoothed value is modelled as \<open>real option\<close>: \<open>None\<close> is NaN (an empty
  cell, or a position the rolling window does not cover), \<open>Some x\<close> is the number \<open>x\<close>.
  Rounding and infinities are not modelled: arithmetic on numbers is exact. What is
  modelled of NaN is what the detector depends on: arithmetic with NaN gives NaN and
  every comparison with NaN is false.
\<close>

type_synonym pyfloat = "real option"

definition fsub :: "pyfloat \<Rightarrow> pyfloat \<Rightarrow> pyfloat" where
  "fsub a b = (case a of None \<Rightarrow> None
               | Some x \<Rightarrow> (case b of None \<Rightarrow> None | Some y \<Rightarrow> Some (x - y)))"

definition fmul :: "pyfloat \<Rightarrow> pyfloat \<Rightarrow> pyfloat" where
  "fmul a b = (case a of None \<Rightarrow> None
               | Some x \<Rightarrow> (case b of None \<Rightarrow> None | Some y \<Rightarrow> Some (x * y)))"

definition fabs :: "pyfloat \<Rightarrow> pyfloat" where
  "fabs a = (case a of None \<Rightarrow> None | Some x \<Rightarrow> Some \<bar>x\<bar>)"

definition fge :: "pyfloat \<Rightarrow> pyfloat \<Rightarrow> bool" where
  "fge a b = (case a of None \<Rightarrow> False
              | Some x \<Rightarrow> (case b of None \<Rightarrow> False | Some y \<Rightarrow> x \<ge> y))"

definition fle :: "pyfloat \<Rightarrow> pyfloat \<Rightarrow> bool" where
  "fle a b = (case a of None \<Rightarrow> False
              | Some x \<Rightarrow> (case b of None \<Rightarrow> False | Some y \<Rightarrow> x \<le> y))"

definition fgt :: "pyfloat \<Rightarrow> pyfloat \<Rightarrow> bool" where
  "fgt a b = (case a of None \<Rightarrow> False
              | Some x \<Rightarrow> (case b of None \<Rightarrow> False | Some y \<Rightarrow> x > y))"

definition flt :: "pyfloat \<Rightarrow> pyfloat \<Rightarrow> bool" where
  "flt a b = (case a of None \<Rightarrow> False
              | Some x \<Rightarrow> (case b of None \<Rightarrow> False | Some y \<Rightarrow> x < y))"

section \<open>The smoother\<close>

text \<open>
  \<^verbatim>\<open>def moving_average(data, window_size):
      return data.rolling(window=window_size, center=True).mean()\<close>

  The rolling mean is the library's: for the position \<open>i\<close> of a series of \<open>n\<close> values and
  a fixed window \<open>w\<close>, the window ends (exclusively) at \<open>i + 1 + (w - 1) // 2\<close> and starts
  \<open>w\<close> positions before, both clipped to \<open>0..n\<close>. The mean is taken over the numbers (not
  NaN) of the window when there are at least \<open>min_periods\<close> of them, and \<open>min_periods\<close>
  defaults to the window size; otherwise the result is NaN.
\<close>

definition window_bounds :: "nat \<Rightarrow> nat \<Rightarrow> nat \<Rightarrow> nat \<times> nat" where
  "window_bounds n w i =
     (let offset = (int w - 1) div 2;
          e = int i + 1 + offset;
          s = e - int w
      in (nat (max 0 (min (int n) s)), nat (max 0 (min (int n) e))))"

definition rolling_mean :: "pyfloat list \<Rightarrow> nat \<Rightarrow> nat \<Rightarrow> pyfloat" where
  "rolling_mean data w i =
     (let (s, e) = window_bounds (length data) w i;
          obs = List.map_filter (\<lambda>x. x) (take (e - s) (drop s data));
          nobs = length obs
      in if nobs \<ge> w \<and> nobs > 0 then Some (sum_list obs / real nobs) else None)"

definition moving_average :: "pyfloat list \<Rightarrow> nat \<Rightarrow> pyfloat list" where
  "moving_average data window_size =
     map (rolling_mean data window_size) [0..<length data]"

section \<open>The table and its column names\<close>

text \<open>
  The table read from the Excel file is a list of named columns, in the file's order. A
  data frame has columns of one length (its number of rows) and, for a column to be
  selected by name, names that are distinct; \<open>well_formed\<close> says so of the frame with
  its names cleaned. Cells are floats; a frame with text cells in a required column
  is outside the model.
\<close>

type_synonym dataframe = "(string \<times> pyfloat list) list"

definition df_len :: "dataframe \<Rightarrow> nat" where
  "df_len df = (case df of [] \<Rightarrow> 0 | (c, xs) # rest \<Rightarrow> length xs)"

text \<open>
  \<^verbatim>\<open>data.columns = data.columns.str.strip().str.lower()\<close>

  \<open>strip\<close> removes leading and trailing whitespace, \<open>lower\<close> maps upper-case letters
  to lower case. Names are byte strings here, so both are the ASCII part of Python's:
  tab, line feed, vertical tab, form feed, carriage return, the separators 28 to 31
  and the space are whitespace, and \<open>A\<close> to \<open>Z\<close> are the upper-case letters.
\<close>

definition is_space :: "char \<Rightarrow> bool" where
  "is_space c = (let n = (of_char c :: nat) in (9 \<le> n \<and> n \<le> 13) \<or> (28 \<le> n \<and> n \<le> 32))"

definition strip :: "string \<Rightarrow> string" where
  "strip s = rev (dropWhile is_space (rev (dropWhile is_space s)))"

definition lower_char :: "char \<Rightarrow> char" where
  "lower_char c = (let n = (of_char c :: nat) in if 65 \<le> n \<and> n \<le> 90 then char_of (n + 32) else c)"

definition lower :: "string \<Rightarrow> string" where
  "lower s = map lower_char s"

definition normalize_columns :: "dataframe \<Rightarrow> dataframe" where
  "normalize_columns df = map (\<lambda>(c, xs). (lower (strip c), xs)) df"

definition well_formed :: "dataframe \<Rightarrow> bool" where
  "well_formed df \<longleftrightarrow>
     distinct (map fst (normalize_columns df)) \<and> list_all (\<lambda>(c, xs). length xs = df_len df) df"

definition required_columns :: "string list" where
  "required_columns =
     [''voltage'', ''voltage_0'',
      ''voltage (dc voltage)'', ''voltage_0 (dc voltage)'',
      ''voltage (positive peak)'', ''voltage_0 (negative peak)'',
      ''voltage_0 (positive peak)'']"

text \<open>
  The message of the \<open>ValueError\<close>: the escape sequence of \<open>Fore.RED\<close>, the text, and
  the list as Python prints it (each name between single quotes, separated by a comma
  and a space, between brackets; the names hold no character that \<open>repr\<close> escapes).
\<close>

definition Fore_RED :: string where
  "Fore_RED = [char_of (27::nat)] @ ''[31m''"

definition py_repr_str :: "string \<Rightarrow> string" where
  "py_repr_str s = [char_of (39::nat)] @ s @ [char_of (39::nat)]"

fun py_join :: "string \<Rightarrow> string list \<Rightarrow> string" where
  "py_join sep [] = []"
| "py_join sep [x] = x"
| "py_join sep (x # y # ys) = x @ sep @ py_join sep (y # ys)"

definition py_repr_list :: "string list \<Rightarrow> string" where
  "py_repr_list xs = ''['' @ py_join '', '' (map py_repr_str xs) @ '']''"

definition missing_columns_message :: string where
  "missing_columns_message =
     Fore_RED @ ''Excel file is missing required columns: '' @ py_repr_list required_columns"

datatype error = ValueError string | KeyError string | IndexError | TypeError

text \<open>
  \<open>data[name]\<close> raises \<open>KeyError\<close> when no column has the name. The program selects
  required columns only, after it has checked that they are there
  (lemma \<open>prepare_no_KeyError\<close>).
\<close>

definition column :: "dataframe \<Rightarrow> string \<Rightarrow> error + pyfloat list" where
  "column df name = (case map_of df name of None \<Rightarrow> Inl (KeyError name) | Some xs \<Rightarrow> Inr xs)"

text \<open>\<open>series.iloc[0]\<close> raises \<open>IndexError\<close> on a series without rows.\<close>

definition iloc0 :: "pyfloat list \<Rightarrow> error + pyfloat" where
  "iloc0 xs = (case xs of [] \<Rightarrow> Inl IndexError | x # rest \<Rightarrow> Inr x)"

text \<open>\<open>data[name].iloc[0]\<close>\<close>

definition first_row :: "dataframe \<Rightarrow> string \<Rightarrow> error + pyfloat" where
  "first_row data name = (case column data name of Inl e \<Rightarrow> Inl e | Inr xs \<Rightarrow> iloc0 xs)"

section \<open>Baselines and thresholds\<close>

text \<open>
  Lines 46 to 52: the four values read from the first row, in the order
  (vertical baseline, horizontal baseline, vertical threshold, horizontal threshold).
  \<^verbatim>\<open>if data['voltage_0 (negative peak)'].iloc[0] < data['voltage_0 (positive peak)'].iloc[0]:
      t_horizontal_threshold = data['voltage_0 (negative peak)'].iloc[0]
  else:
      t_horizontal_threshold = data['voltage_0 (positive peak)'].iloc[0]\<close>
\<close>

definition choose_horizontal_threshold :: "pyfloat \<Rightarrow> pyfloat \<Rightarrow> pyfloat" where
  "choose_horizontal_threshold negative_peak positive_peak =
     (if flt negative_peak positive_peak then negative_peak else positive_peak)"

definition read_thresholds :: "dataframe \<Rightarrow> error + (pyfloat \<times> pyfloat \<times> pyfloat \<times> pyfloat)" where
  "read_thresholds data =
     (case first_row data ''voltage (dc voltage)'' of Inl e \<Rightarrow> Inl e
      | Inr vertical_baseline \<Rightarrow>
     (case first_row data ''voltage_0 (dc voltage)'' of Inl e \<Rightarrow> Inl e
      | Inr horizontal_baseline \<Rightarrow>
     (case first_row data ''voltage (positive peak)'' of Inl e \<Rightarrow> Inl e
      | Inr t_vertical_threshold \<Rightarrow>
     (case first_row data ''voltage_0 (negative peak)'' of Inl e \<Rightarrow> Inl e
      | Inr negative_peak \<Rightarrow>
     (case first_row data ''voltage_0 (positive peak)'' of Inl e \<Rightarrow> Inl e
      | Inr positive_peak \<Rightarrow>
        Inr (vertical_baseline, horizontal_baseline, t_vertical_threshold,
             choose_horizontal_threshold negative_peak positive_peak))))))"

section \<open>The event detector\<close>

definition time_interval :: real where "time_interval = 0.002"
definition window_size :: nat where "window_size = 15"
definition threshold_duration :: real where "threshold_duration = 0.4"
definition cooldown_time :: real where "cooldown_time = 0.5"
definition time_advance :: real where "time_advance = 0.05"

text \<open>What the loop reads: the three series it indexes and the four values of the first row.\<close>

record signals =
  time :: "real list"
  voltage_smooth :: "pyfloat list"
  voltage_0_smooth :: "pyfloat list"
  vertical_baseline :: pyfloat
  horizontal_baseline :: pyfloat
  vertical_threshold :: pyfloat
  horizontal_threshold :: pyfloat

text \<open>An event is the tuple \<open>(start_time, end_time, event_type, direction)\<close>.\<close>

type_synonym event = "real \<times> real \<times> string \<times> string option"

text \<open>The variables the loop updates; \<open>None\<close> in an option is Python's \<open>None\<close>.\<close>

record det_state =
  events :: "event list"
  start_time :: "real option"
  is_in_event :: bool
  last_event_end_time :: "real option"
  triggering_type :: "string option"

definition init_state :: det_state where
  "init_state = \<lparr>events = [], start_time = None, is_in_event = False,
                  last_event_end_time = None, triggering_type = None\<rparr>"

text \<open>
  Line 76: \<^verbatim>\<open>last_event_end_time and current_time < last_event_end_time + cooldown_time\<close>.
  The first operand is tested for truth: \<open>None\<close> and the float \<open>0.0\<close> are both false.
\<close>

definition in_cooldown :: "det_state \<Rightarrow> real \<Rightarrow> bool" where
  "in_cooldown s current_time =
     (case last_event_end_time s of None \<Rightarrow> False
      | Some e \<Rightarrow> e \<noteq> 0 \<and> current_time < e + cooldown_time)"

text \<open>Line 80, the two operands of \<open>or\<close>.\<close>

definition vertical_over :: "signals \<Rightarrow> nat \<Rightarrow> bool" where
  "vertical_over c i =
     fge (fabs (fsub (voltage_smooth c ! i) (vertical_baseline c))) (vertical_threshold c)"

definition horizontal_over :: "signals \<Rightarrow> nat \<Rightarrow> bool" where
  "horizontal_over c i =
     fge (fabs (fsub (voltage_0_smooth c ! i) (horizontal_baseline c)))
         (fmul (Some 3) (horizontal_threshold c))"

text \<open>Lines 88 and 107, the second operands of \<open>and\<close>.\<close>

definition horizontal_back :: "signals \<Rightarrow> nat \<Rightarrow> bool" where
  "horizontal_back c i =
     fle (fabs (fsub (voltage_0_smooth c ! i) (horizontal_baseline c)))
         (fmul (Some 3) (horizontal_threshold c))"

definition vertical_back :: "signals \<Rightarrow> nat \<Rightarrow> bool" where
  "vertical_back c i =
     fle (fabs (fsub (voltage_smooth c ! i) (vertical_baseline c)))
         (fmul (Some 3) (vertical_threshold c))"

text \<open>
  \<^verbatim>\<open>(data['time'] - end_time).abs().argmin()\<close>: the first position of the least
  value. It is evaluated inside the loop only, where the series has a row.
\<close>

fun argmin_from :: "nat \<Rightarrow> real \<Rightarrow> nat \<Rightarrow> real list \<Rightarrow> nat" where
  "argmin_from best least j [] = best"
| "argmin_from best least j (x # xs) =
     (if x < least then argmin_from j x (Suc j) xs else argmin_from best least (Suc j) xs)"

definition argmin :: "real list \<Rightarrow> nat" where
  "argmin xs = (case xs of [] \<Rightarrow> 0 | x # rest \<Rightarrow> argmin_from 0 x 1 rest)"

definition nearest_index :: "real list \<Rightarrow> real \<Rightarrow> nat" where
  "nearest_index ts t = argmin (map (\<lambda>x. \<bar>x - t\<bar>) ts)"

definition horizontal_direction :: "signals \<Rightarrow> pyfloat \<Rightarrow> string" where
  "horizontal_direction c end_horizontal =
     ''Horizontal: '' @ (if fgt end_horizontal (horizontal_baseline c)
                         then ''Looking left'' else ''Looking right'')"

text \<open>
  Lines 89 to 105. \<open>end_time - start_time\<close> raises \<open>TypeError\<close> when \<open>start_time\<close> is
  \<open>None\<close>.
\<close>

definition close_horizontal :: "signals \<Rightarrow> det_state \<Rightarrow> real \<Rightarrow> error + det_state" where
  "close_horizontal c s current_time =
     (let end_time = current_time - time_advance in
      case start_time s of None \<Rightarrow> Inl TypeError
      | Some st \<Rightarrow>
         (let duration = end_time - st;
              end_horizontal = voltage_0_smooth c ! nearest_index (time c) end_time;
              event_type = ''Action potential'';
              direction = horizontal_direction c end_horizontal
          in Inr (s\<lparr>events := events s @ [(st, end_time, event_type, Some direction)],
                    last_event_end_time := Some end_time,
                    is_in_event := False, start_time := None, triggering_type := None\<rparr>)))"

text \<open>Lines 108 to 132.\<close>

definition vertical_direction :: "signals \<Rightarrow> pyfloat \<Rightarrow> pyfloat \<Rightarrow> string" where
  "vertical_direction c end_vertical end_horizontal =
     (let direction = ''Vertical: '' @ (if fgt end_vertical (vertical_baseline c)
                                        then ''Looking up'' else ''Looking down'')
      in if fge (fabs (fsub end_horizontal (horizontal_baseline c))) (horizontal_threshold c)
         then direction @ '', '' @ horizontal_direction c end_horizontal
         else direction)"

definition close_vertical :: "signals \<Rightarrow> det_state \<Rightarrow> real \<Rightarrow> error + det_state" where
  "close_vertical c s current_time =
     (let end_time = current_time - time_advance in
      case start_time s of None \<Rightarrow> Inl TypeError
      | Some st \<Rightarrow>
         (let duration = end_time - st;
              end_vertical = voltage_smooth c ! nearest_index (time c) end_time;
              end_horizontal = voltage_0_smooth c ! nearest_index (time c) end_time;
              (event_type, direction) =
                 (if duration \<le> threshold_duration then (''Blink'', None)
                  else (''Action potential'',
                        Some (vertical_direction c end_vertical end_horizontal)))
          in Inr (s\<lparr>events := events s @ [(st, end_time, event_type, direction)],
                    last_event_end_time := Some end_time,
                    is_in_event := False, start_time := None, triggering_type := None\<rparr>)))"

text \<open>The body of the loop, lines 71 to 132, for the row \<open>i\<close>.\<close>

definition step :: "signals \<Rightarrow> det_state \<Rightarrow> nat \<Rightarrow> error + det_state" where
  "step c s i =
     (let current_time = time c ! i in
      if in_cooldown s current_time then Inr s
      else if vertical_over c i \<or> horizontal_over c i then
        (if \<not> is_in_event s
         then Inr (s\<lparr>is_in_event := True, start_time := Some current_time,
                     triggering_type :=
                       Some (if horizontal_over c i then ''horizontal'' else ''vertical'')\<rparr>)
         else Inr s)
      else if is_in_event s then
        (if triggering_type s = Some ''horizontal'' \<and> horizontal_back c i
         then close_horizontal c s current_time
         else if triggering_type s = Some ''vertical'' \<and> vertical_back c i
         then close_vertical c s current_time
         else Inr s)
      else Inr s)"

text \<open>\<^verbatim>\<open>for i in range(len(data))\<close>: the rows in order; an exception ends the loop.\<close>

fun detect_loop :: "signals \<Rightarrow> nat list \<Rightarrow> det_state \<Rightarrow> error + det_state" where
  "detect_loop c [] s = Inr s"
| "detect_loop c (i # rest) s =
     (case step c s i of Inl e \<Rightarrow> Inl e | Inr s' \<Rightarrow> detect_loop c rest s')"

text \<open>The state after the first \<open>k\<close> rows.\<close>

definition state_after :: "signals \<Rightarrow> nat \<Rightarrow> error + det_state" where
  "state_after c k = detect_loop c [0..<k] init_state"

section \<open>The analysis\<close>

text \<open>
  Lines 24 to 132 of \<open>analyze_and_plot\<close>, from the table read from the file to the list
  of events, which the rest of the function draws and prints.
\<close>

definition sample_times :: "nat \<Rightarrow> real list" where
  "sample_times n = map (\<lambda>i. real i * time_interval) [0..<n]"

definition signals_of ::
  "nat \<Rightarrow> pyfloat list \<Rightarrow> pyfloat list \<Rightarrow> pyfloat \<times> pyfloat \<times> pyfloat \<times> pyfloat \<Rightarrow> signals" where
  "signals_of n voltage voltage_0 th =
     (case th of (vb, hb, vt, ht) \<Rightarrow>
        \<lparr>time = sample_times n,
         voltage_smooth = moving_average voltage window_size,
         voltage_0_smooth = moving_average voltage_0 window_size,
         vertical_baseline = vb, horizontal_baseline = hb,
         vertical_threshold = vt, horizontal_threshold = ht\<rparr>)"

text \<open>Lines 24 to 59: the checked, smoothed table and the values of its first row.\<close>

definition prepare :: "dataframe \<Rightarrow> error + signals" where
  "prepare raw =
     (let data = normalize_columns raw in
      if \<not> list_all (\<lambda>col. col \<in> set (map fst data)) required_columns
      then Inl (ValueError missing_columns_message)
      else
        (case column data ''voltage'' of Inl e \<Rightarrow> Inl e
         | Inr voltage \<Rightarrow>
        (case column data ''voltage_0'' of Inl e \<Rightarrow> Inl e
         | Inr voltage_0 \<Rightarrow>
        (case read_thresholds data of Inl e \<Rightarrow> Inl e
         | Inr th \<Rightarrow> Inr (signals_of (df_len data) voltage voltage_0 th)))))"

text \<open>
  Then the loop over \<open>range(len(data))\<close>; the time column made at line 38 has
  \<open>len(data)\<close> entries.
\<close>

definition analyze_and_plot :: "dataframe \<Rightarrow> error + event list" where
  "analyze_and_plot raw =
     (case prepare raw of Inl e \<Rightarrow> Inl e
      | Inr c \<Rightarrow>
         (case state_after c (length (time c)) of Inl e \<Rightarrow> Inl e
          | Inr s \<Rightarrow> Inr (events s)))"

section \<open>Reachable states\<close>

text \<open>
  What holds of the state before row \<open>k\<close>: an open event has its start time at an
  earlier row where the entry test held, and a channel; without an open event both
  variables are \<open>None\<close>; every recorded event started at a row where the entry test
  held and was closed at a later row.
\<close>

definition entry_condition :: "signals \<Rightarrow> nat \<Rightarrow> bool" where
  "entry_condition c i \<longleftrightarrow> vertical_over c i \<or> horizontal_over c i"

definition recorded :: "signals \<Rightarrow> nat \<Rightarrow> event \<Rightarrow> bool" where
  "recorded c k e \<longleftrightarrow>
     (\<exists>j m. j < m \<and> m < k \<and> entry_condition c j
            \<and> fst e = time c ! j \<and> fst (snd e) = time c ! m - time_advance)"

definition reachable :: "signals \<Rightarrow> nat \<Rightarrow> det_state \<Rightarrow> bool" where
  "reachable c k s \<longleftrightarrow>
     (if is_in_event s
      then (\<exists>j<k. start_time s = Some (time c ! j) \<and> entry_condition c j)
           \<and> (triggering_type s = Some ''horizontal'' \<or> triggering_type s = Some ''vertical'')
      else start_time s = None \<and> triggering_type s = None)
     \<and> (\<forall>e \<in> set (events s). recorded c k e)"

text \<open>
  What the cooldown gives: the end time remembered is that of the last recorded event; an
  open event started a cooldown or more after that end time, and so did every recorded
  event after the end time of the one before it, unless that end time is 0.
\<close>

definition cooldown_kept :: "det_state \<Rightarrow> bool" where
  "cooldown_kept s \<longleftrightarrow>
     last_event_end_time s =
       (if events s = [] then None else Some (fst (snd (last (events s)))))
     \<and> (\<forall>st e. is_in_event s \<and> start_time s = Some st \<and> last_event_end_time s = Some e \<and> e \<noteq> 0
            \<longrightarrow> e + cooldown_time \<le> st)
     \<and> (\<forall>i. Suc i < length (events s) \<and> fst (snd (events s ! i)) \<noteq> 0
            \<longrightarrow> fst (snd (events s ! i)) + cooldown_time \<le> fst (events s ! Suc i))"

section \<open>Example recordings\<close>

text \<open>
  A recording with the two raw channels \<open>v\<close> and \<open>h\<close> and, in every row, the baselines
  \<open>vb\<close> and \<open>hb\<close>, the vertical positive peak \<open>pv\<close> and the horizontal negative and
  positive peaks \<open>nh\<close> and \<open>ph\<close>. The headers are written as a file may have them.
\<close>

definition recording ::
  "real list \<Rightarrow> real list \<Rightarrow> real \<Rightarrow> real \<Rightarrow> real \<Rightarrow> real \<Rightarrow> real \<Rightarrow> dataframe" where
  "recording v h vb hb pv nh ph =
     (let n = length v in
      [(''Voltage'', map Some v),
       (''Voltage_0'', map Some h),
       (''Voltage (DC Voltage)'', replicate n (Some vb)),
       (''Voltage_0 (DC Voltage)'', replicate n (Some hb)),
       (''Voltage (Positive Peak) '', replicate n (Some pv)),
       (''Voltage_0 (Negative Peak)'', replicate n (Some nh)),
       ('' Voltage_0 (Positive Peak)'', replicate n (Some ph))])"

text \<open>
  Sixteen rows: the smoothed vertical channel is 1 at row 7 and 0 at row 8, the only rows
  the window covers.
\<close>

definition short_blink :: dataframe where
  "short_blink = recording (15 # replicate 15 0) (replicate 16 0) 0 0 1 1 1"

text \<open>The vertical channel stays at 2, twice its threshold.\<close>

definition vertical_hold :: dataframe where
  "vertical_hold = recording (replicate 16 2) (replicate 16 0) 0 0 1 1 1"

text \<open>
  The smoothed vertical channel falls from 1 to 0 at row 8, where the smoothed horizontal
  channel rises from 0 to 3.
\<close>

definition vertical_then_horizontal :: dataframe where
  "vertical_then_horizontal = recording (15 # replicate 15 0) (replicate 15 0 @ [45]) 0 0 1 1 1"

text \<open>The horizontal channel stays at 3, three times its threshold.\<close>

definition horizontal_hold :: dataframe where
  "horizontal_hold = recording (replicate 16 0) (replicate 16 3) 0 0 1 1 1"

text \<open>
  The smoothed horizontal channel falls from 3 to 0 at row 8, where the smoothed vertical
  channel rises from 0 to 1.
\<close>

definition horizontal_then_vertical :: dataframe where
  "horizontal_then_vertical = recording (replicate 15 0 @ [15]) (45 # replicate 15 0) 0 0 1 1 1"

text \<open>Both channels are over their entry thresholds at row 7.\<close>

definition both_channels :: dataframe where
  "both_channels = recording (replicate 16 2) (replicate 16 3) 0 0 1 1 1"

text \<open>A negative peak recorded with its sign.\<close>

definition signed_peaks :: dataframe where
  "signed_peaks = recording [0] [0] 0 0 1 (- 1) 2"

text \<open>
  Thirty-five rows: the smoothed vertical channel is 1 at the rows 7 to 24, 14/15 at row
  25, 29/15 at row 26 and -2/15 at row 27.
\<close>

definition two_blinks :: dataframe where
  "two_blinks = recording (replicate 32 1 @ [0, 16, - 30]) (replicate 35 0) 0 0 1 1 1"

text \<open>
  Seventeen rows: the smoothed vertical channel is 2, 1 and 0 at the rows 7, 8 and 9.
\<close>

definition vertical_release :: dataframe where
  "vertical_release = recording ([15, 15] @ replicate 15 0) (replicate 17 0) 0 0 1 1 1"

text \<open>
  Seventeen rows: the smoothed horizontal channel is 6, 3 and 0 at the rows 7, 8 and 9.
\<close>

definition horizontal_release :: dataframe where
  "horizontal_release = recording (replicate 17 0) ([45, 45] @ replicate 15 0) 0 0 1 1 1"

text \<open>A table without the column of the horizontal negative peak.\<close>

definition missing_negative_peak :: dataframe where
  "missing_negative_peak =
     [(''Voltage'', [Some 0]),
      (''Voltage_0'', [Some 0]),
      (''Voltage (DC Voltage)'', [Some 0]),
      (''Voltage_0 (DC Voltage)'', [Some 0]),
      (''Voltage (Positive Peak)'', [Some 1]),
      (''Voltage_0 (Positive Peak)'', [Some 1])]"

text \<open>
  The signals of a recording of \<open>n\<close> rows whose baselines are 0 and whose thresholds
  are 1, with the smoothed values \<open>vs\<close> and \<open>hs\<close> from row 7 on, where the window
  starts to cover the rows.
\<close>

definition signals_from_row_7 :: "nat \<Rightarrow> real list \<Rightarrow> real list \<Rightarrow> signals" where
  "signals_from_row_7 n vs hs =
     \<lparr>time = sample_times n,
      voltage_smooth = replicate 7 None @ map Some vs @ replicate 7 None,
      voltage_0_smooth = replicate 7 None @ map Some hs @ replicate 7 None,
      vertical_baseline = Some 0, horizontal_baseline = Some 0,
      vertical_threshold = Some 1, horizontal_threshold = Some 1\<rparr>"

text \<open>The state with no recorded event and an event open since row \<open>j\<close>.\<close>

definition open_since :: "nat \<Rightarrow> string \<Rightarrow> det_state" where
  "open_since j channel =
     \<lparr>events = [], start_time = Some (real j * time_interval), is_in_event = True,
      last_event_end_time = None, triggering_type = Some channel\<rparr>"

section \<open>Properties of the smoother\<close>

lemma length_moving_average: "length (moving_average data w) = length data"
  by (simp add: moving_average_def)

lemma map_filter_Some: "List.map_filter (\<lambda>x. x) (map Some ys) = ys"
  by (induction ys) simp_all

lemma length_map_filter_le: "length (List.map_filter f xs) \<le> length xs"
  by (simp add: List.map_filter_def)

lemma rolling_mean_inner:
  assumes "0 < w" "w div 2 \<le> i" "i + (w - 1) div 2 < length ys"
  shows "rolling_mean (map Some ys) w i
         = Some (sum_list (take w (drop (i - w div 2) ys)) / real w)"
proof -
  let ?s = "i - w div 2"
  let ?win = "take w (drop ?s ys)"
  have b: "window_bounds (length (map Some ys)) w i = (?s, ?s + w)"
    using assms unfolding window_bounds_def Let_def
    by (auto simp: nat_eq_iff min_def max_def)
  have win: "take (?s + w - ?s) (drop ?s (map Some ys)) = map Some ?win"
    by (simp add: take_map drop_map)
  have l: "length ?win = w"
    using assms by simp
  have ne: "?win \<noteq> []"
    using l assms(1) by (metis length_0_conv less_numeral_extra(3))
  show ?thesis
    unfolding rolling_mean_def b Let_def prod.case win map_filter_Some l
    using ne assms(1) by simp
qed

lemma window_bounds_edge:
  assumes "0 < w" "i < n" "i < w div 2 \<or> n \<le> i + (w - 1) div 2"
  shows "snd (window_bounds n w i) - fst (window_bounds n w i) < w"
  using assms unfolding window_bounds_def Let_def
  by (auto simp: min_def max_def nat_less_iff)

lemma rolling_mean_edge:
  assumes "0 < w" "i < length data" "i < w div 2 \<or> length data \<le> i + (w - 1) div 2"
  shows "rolling_mean data w i = None"
proof -
  obtain s e where b: "window_bounds (length data) w i = (s, e)"
    by (cases "window_bounds (length data) w i")
  have short: "e - s < w"
    using window_bounds_edge [OF assms] by (simp add: b)
  have "length (List.map_filter (\<lambda>x. x) (take (e - s) (drop s data))) \<le> e - s"
    using length_map_filter_le [of "\<lambda>x. x" "take (e - s) (drop s data)"] by simp
  then have "length (List.map_filter (\<lambda>x. x) (take (e - s) (drop s data))) < w"
    using short by linarith
  then show ?thesis
    unfolding rolling_mean_def b Let_def prod.case by simp
qed

lemma sum_list_window_replicate:
  assumes "k + w \<le> n"
  shows "sum_list (take w (drop k (replicate n (c::real)))) = real w * c"
proof -
  have "take w (drop k (replicate n c)) = replicate w c"
    using assms by (simp add: min_def)
  then show ?thesis by (simp add: sum_list_replicate)
qed

text \<open>
  C8. On a series of numbers the smoother returns a series of the same length; at every
  position whose window \<open>i - w div 2 .. i + (w - 1) div 2\<close> (for an odd \<open>w = 2h + 1\<close>:
  \<open>i - h .. i + h\<close>) lies inside the series the value is the arithmetic mean of the \<open>w\<close>
  inputs of that window, at every other position the value is missing; a constant series
  is returned unchanged at the positions that are not missing.
\<close>

theorem moving_average_centered_mean:
  assumes "0 < w"
  shows "length (moving_average (map Some ys) w) = length ys
       \<and> (\<forall>i < length ys. moving_average (map Some ys) w ! i =
            (if w div 2 \<le> i \<and> i + (w - 1) div 2 < length ys
             then Some (sum_list (take w (drop (i - w div 2) ys)) / real w) else None))
       \<and> (\<forall>i < n. moving_average (map Some (replicate n c)) w ! i =
            (if w div 2 \<le> i \<and> i + (w - 1) div 2 < n then Some c else None))"
proof -
  have mean: "moving_average (map Some zs) w ! i =
            (if w div 2 \<le> i \<and> i + (w - 1) div 2 < length zs
             then Some (sum_list (take w (drop (i - w div 2) zs)) / real w) else None)"
    if "i < length zs" for zs i
  proof (cases "w div 2 \<le> i \<and> i + (w - 1) div 2 < length zs")
    case True
    then show ?thesis
      using that assms rolling_mean_inner [of w i zs] by (simp add: moving_average_def)
  next
    case False
    then have "rolling_mean (map Some zs) w i = None"
      using that assms rolling_mean_edge [of w i "map Some zs"] by auto
    then show ?thesis
      using that False by (simp add: moving_average_def)
  qed
  have const: "moving_average (map Some (replicate n c)) w ! i =
            (if w div 2 \<le> i \<and> i + (w - 1) div 2 < n then Some c else None)"
    if "i < n" for i
  proof (cases "w div 2 \<le> i \<and> i + (w - 1) div 2 < n")
    case True
    then have "i - w div 2 + w \<le> n"
      using assms by linarith
    then have "sum_list (take w (drop (i - w div 2) (replicate n c))) = real w * c"
      by (rule sum_list_window_replicate)
    then show ?thesis
      using mean [of i "replicate n c"] that True assms by simp
  next
    case False
    then show ?thesis
      using mean [of i "replicate n c"] that by auto
  qed
  show ?thesis
    using mean const by (simp add: length_moving_average)
qed

theorem moving_average_centered_mean_witness:
  "(0::nat) < 3
   \<and> length (moving_average (map Some [1, 2, 3, 6]) 3) = 4
   \<and> moving_average (map Some [1, 2, 3, 6]) 3 ! 0 = None
   \<and> moving_average (map Some [1, 2, 3, 6]) 3 ! 1 = Some 2
   \<and> moving_average (map Some [1, 2, 3, 6]) 3 ! 2 = Some (11 / 3)
   \<and> moving_average (map Some [1, 2, 3, 6]) 3 ! 3 = None
   \<and> moving_average (map Some (replicate 4 5)) 3 ! 1 = Some 5"
proof -
  have h: "(0::nat) < 3" by simp
  note t = moving_average_centered_mean [OF h, of "[1, 2, 3, 6]" 4 5]
  have a: "\<forall>i<4. moving_average (map Some [1, 2, 3, 6]) 3 ! i =
            (if 3 div 2 \<le> i \<and> i + (3 - 1) div 2 < 4
             then Some (sum_list (take 3 (drop (i - 3 div 2) [1, 2, 3, 6])) / real 3) else None)"
    using t by simp
  have c: "\<forall>i<4. moving_average (map Some (replicate 4 5)) 3 ! i =
            (if 3 div 2 \<le> i \<and> i + (3 - 1) div 2 < 4 then Some 5 else None)"
    using t by blast
  have "length (moving_average (map Some [1, 2, 3, 6]) 3) = 4"
    using t by simp
  moreover have "moving_average (map Some [1, 2, 3, 6]) 3 ! 0 = None"
    using a [rule_format, of 0] by simp
  moreover have "moving_average (map Some [1, 2, 3, 6]) 3 ! 1 = Some 2"
    using a [rule_format, of 1] by simp
  moreover have "moving_average (map Some [1, 2, 3, 6]) 3 ! 2 = Some (11 / 3)"
    using a [rule_format, of 2] by simp
  moreover have "moving_average (map Some [1, 2, 3, 6]) 3 ! 3 = None"
    using a [rule_format, of 3] by simp
  moreover have "moving_average (map Some (replicate 4 5)) 3 ! 1 = Some 5"
    using c [rule_format, of 1] by simp
  ultimately show ?thesis using h by blast
qed

section \<open>Properties of the loop\<close>

lemma detect_loop_append:
  "detect_loop c (xs @ ys) s =
     (case detect_loop c xs s of Inl e \<Rightarrow> Inl e | Inr s' \<Rightarrow> detect_loop c ys s')"
  by (induction xs arbitrary: s) (simp_all split: sum.splits)

lemma state_after_0: "state_after c 0 = Inr init_state"
  by (simp add: state_after_def)

lemma state_after_Suc:
  "state_after c (Suc k) = (case state_after c k of Inl e \<Rightarrow> Inl e | Inr s \<Rightarrow> step c s k)"
  by (simp add: state_after_def detect_loop_append split: sum.splits)

lemma recorded_mono: "recorded c k e \<Longrightarrow> recorded c (Suc k) e"
  unfolding recorded_def by (meson less_Suc_eq)

lemma step_cases:
  obtains (same) "step c s i = Inr s"
  | (opened) "\<not> in_cooldown s (time c ! i)" "entry_condition c i" "\<not> is_in_event s"
      "step c s i = Inr (s\<lparr>is_in_event := True, start_time := Some (time c ! i),
          triggering_type := Some (if horizontal_over c i then ''horizontal'' else ''vertical'')\<rparr>)"
  | (closed_h) "\<not> in_cooldown s (time c ! i)" "\<not> entry_condition c i" "is_in_event s"
      "triggering_type s = Some ''horizontal''" "horizontal_back c i"
      "step c s i = close_horizontal c s (time c ! i)"
  | (closed_v) "\<not> in_cooldown s (time c ! i)" "\<not> entry_condition c i" "is_in_event s"
      "triggering_type s = Some ''vertical''" "vertical_back c i"
      "step c s i = close_vertical c s (time c ! i)"
  unfolding step_def entry_condition_def Let_def
  by (cases "in_cooldown s (time c ! i)"; cases "vertical_over c i \<or> horizontal_over c i";
      cases "is_in_event s"; cases "triggering_type s = Some ''horizontal'' \<and> horizontal_back c i";
      cases "triggering_type s = Some ''vertical'' \<and> vertical_back c i") auto

lemma reachable_step:
  assumes "reachable c k s"
  shows "\<exists>s'. step c s k = Inr s' \<and> reachable c (Suc k) s'"
proof (cases rule: step_cases [of c s k])
  case same
  then show ?thesis
    using assms unfolding reachable_def
    by (auto intro: recorded_mono less_SucI split: if_splits)
next
  case opened
  then show ?thesis
    using assms unfolding reachable_def
    by (auto intro: recorded_mono split: if_splits)
next
  case closed_h
  from assms closed_h(3) obtain j where j: "j < k" "start_time s = Some (time c ! j)" "entry_condition c j"
    unfolding reachable_def by auto
  have "recorded c (Suc k) (time c ! j, time c ! k - time_advance, x)" for x
    unfolding recorded_def using j by auto
  then show ?thesis
    using assms closed_h j unfolding reachable_def close_horizontal_def Let_def
    by (auto intro: recorded_mono)
next
  case closed_v
  from assms closed_v(3) obtain j where j: "j < k" "start_time s = Some (time c ! j)" "entry_condition c j"
    unfolding reachable_def by auto
  have "recorded c (Suc k) (time c ! j, time c ! k - time_advance, x)" for x
    unfolding recorded_def using j by auto
  then show ?thesis
    using assms closed_v j unfolding reachable_def close_vertical_def Let_def
    by (auto intro: recorded_mono split: if_splits)
qed

lemma reachable_init: "reachable c 0 init_state"
  by (simp add: reachable_def init_state_def)

lemma state_after_reachable: "\<exists>s. state_after c k = Inr s \<and> reachable c k s"
proof (induction k)
  case 0
  show ?case by (simp add: state_after_0 reachable_init)
next
  case (Suc k)
  then obtain s where "state_after c k = Inr s" "reachable c k s" by blast
  then show ?case
    using reachable_step [of c k s] by (simp add: state_after_Suc)
qed

section \<open>Properties of the analysis\<close>

lemma df_len_normalize: "df_len (normalize_columns df) = df_len df"
  by (cases df) (auto simp: df_len_def normalize_columns_def split: prod.splits)

lemma prepare_signals:
  assumes "prepare raw = Inr c"
  shows "time c = sample_times (df_len raw)"
    and "\<exists>v. column (normalize_columns raw) ''voltage'' = Inr v
             \<and> voltage_smooth c = moving_average v window_size"
    and "\<exists>h. column (normalize_columns raw) ''voltage_0'' = Inr h
             \<and> voltage_0_smooth c = moving_average h window_size"
  using assms unfolding prepare_def Let_def signals_of_def
  by (auto simp: df_len_normalize split: if_splits sum.splits prod.splits)

lemma length_sample_times: "length (sample_times n) = n"
  by (simp add: sample_times_def)

lemma nth_sample_times: "i < n \<Longrightarrow> sample_times n ! i = real i * time_interval"
  by (simp add: sample_times_def)

lemma required_column_present:
  assumes "list_all (\<lambda>col. col \<in> set (map fst df)) required_columns" "name \<in> set required_columns"
  shows "\<exists>xs. map_of df name = Some xs \<and> (name, xs) \<in> set df"
proof -
  have "name \<in> set (map fst df)"
    using assms by (simp add: list_all_iff)
  then obtain xs where "map_of df name = Some xs"
    by (metis domD dom_map_of_conv_image_fst list.set_map)
  then show ?thesis
    by (auto dest: map_of_SomeD)
qed

lemma required_column_selected:
  assumes "list_all (\<lambda>col. col \<in> set (map fst df)) required_columns" "name \<in> set required_columns"
  shows "\<exists>xs. column df name = Inr xs"
  using required_column_present [OF assms] by (auto simp: column_def)

lemma well_formed_column_length:
  assumes "well_formed raw" "column (normalize_columns raw) name = Inr xs"
  shows "length xs = df_len raw"
proof -
  have "map_of (normalize_columns raw) name = Some xs"
    using assms(2) unfolding column_def by (auto split: option.splits)
  then have "(name, xs) \<in> set (normalize_columns raw)"
    by (rule map_of_SomeD)
  then obtain c where "(c, xs) \<in> set raw"
    unfolding normalize_columns_def by auto
  then show ?thesis
    using assms(1) unfolding well_formed_def by (auto simp: list_all_iff)
qed

lemma fge_fabs_fsub_None [simp]: "fge (fabs (fsub None b)) t = False"
  by (simp add: fge_def fabs_def fsub_def)

lemma moving_average_edge:
  assumes "i < length data" "moving_average data window_size ! i \<noteq> None"
  shows "7 \<le> i \<and> i + 7 < length data"
proof (rule ccontr)
  assume "\<not> (7 \<le> i \<and> i + 7 < length data)"
  then have "i < window_size div 2 \<or> length data \<le> i + (window_size - 1) div 2"
    by (auto simp: window_size_def)
  then have "rolling_mean data window_size i = None"
    using rolling_mean_edge [of window_size i data] assms(1) by (simp add: window_size_def)
  then show False
    using assms by (simp add: moving_average_def)
qed

lemma entry_condition_inner:
  assumes "well_formed raw" "prepare raw = Inr c" "j < df_len raw" "entry_condition c j"
  shows "7 \<le> j \<and> j + 7 < df_len raw"
proof -
  obtain v where v: "column (normalize_columns raw) ''voltage'' = Inr v"
      "voltage_smooth c = moving_average v window_size"
    using prepare_signals(2) [OF assms(2)] by blast
  obtain h where h: "column (normalize_columns raw) ''voltage_0'' = Inr h"
      "voltage_0_smooth c = moving_average h window_size"
    using prepare_signals(3) [OF assms(2)] by blast
  have lv: "length v = df_len raw"
    using well_formed_column_length [OF assms(1) v(1)] .
  have lh: "length h = df_len raw"
    using well_formed_column_length [OF assms(1) h(1)] .
  from assms(4) consider "voltage_smooth c ! j \<noteq> None" | "voltage_0_smooth c ! j \<noteq> None"
    unfolding entry_condition_def vertical_over_def horizontal_over_def
    by (cases "voltage_smooth c ! j"; cases "voltage_0_smooth c ! j") auto
  then show ?thesis
  proof cases
    case 1
    then show ?thesis
      using moving_average_edge [of j v] assms(3) lv v(2) by simp
  next
    case 2
    then show ?thesis
      using moving_average_edge [of j h] assms(3) lh h(2) by simp
  qed
qed

text \<open>The selections of columns after the check do not raise.\<close>

lemma prepare_no_KeyError: "prepare raw \<noteq> Inl (KeyError name)"
proof (cases "list_all (\<lambda>col. col \<in> set (map fst (normalize_columns raw))) required_columns")
  case False
  then show ?thesis
    unfolding prepare_def Let_def by simp
next
  case True
  have sel: "\<exists>xs. column (normalize_columns raw) col = Inr xs" if "col \<in> set required_columns" for col
    using required_column_selected [OF True that] .
  have row: "first_row (normalize_columns raw) col \<noteq> Inl (KeyError name)"
    if "col \<in> set required_columns" for col
    using sel [OF that] unfolding first_row_def iloc0_def by (auto split: list.splits)
  have th: "read_thresholds (normalize_columns raw) \<noteq> Inl (KeyError name)"
    unfolding read_thresholds_def
    using row [of "''voltage (dc voltage)''"] row [of "''voltage_0 (dc voltage)''"]
      row [of "''voltage (positive peak)''"] row [of "''voltage_0 (negative peak)''"]
      row [of "''voltage_0 (positive peak)''"]
    by (auto simp: required_columns_def split: sum.splits)
  show ?thesis
    unfolding prepare_def Let_def
    using True th sel [of "''voltage''"] sel [of "''voltage_0''"]
    by (auto simp: required_columns_def split: sum.splits)
qed

text \<open>The loop does not raise: an error of the analysis is an error of the preparation.\<close>

lemma analyze_error_from_prepare:
  assumes "analyze_and_plot raw = Inl e"
  shows "prepare raw = Inl e"
proof (cases "prepare raw")
  case (Inl e')
  then show ?thesis using assms unfolding analyze_and_plot_def by simp
next
  case (Inr c)
  obtain s where "state_after c (length (time c)) = Inr s"
    using state_after_reachable [of c "length (time c)"] by blast
  then show ?thesis
    using assms Inr unfolding analyze_and_plot_def by simp
qed

lemma analyze_events_recorded:
  assumes "analyze_and_plot raw = Inr evs" "e \<in> set evs"
  shows "\<exists>c. prepare raw = Inr c \<and> recorded c (df_len raw) e"
proof -
  from assms(1) obtain c s where c: "prepare raw = Inr c"
      and s: "state_after c (length (time c)) = Inr s" and evs: "evs = events s"
    unfolding analyze_and_plot_def by (auto split: sum.splits)
  have n: "length (time c) = df_len raw"
    using prepare_signals(1) [OF c] by (simp add: length_sample_times)
  have "reachable c (df_len raw) s"
    using state_after_reachable [of c "df_len raw"] s n by simp
  then show ?thesis
    using c assms(2) evs unfolding reachable_def by blast
qed

section \<open>Properties of an open event\<close>




lemma open_step_vertical:
  assumes "is_in_event s" "triggering_type s = Some ''vertical''"
  shows "step c s i =
     (if \<not> in_cooldown s (time c ! i) \<and> \<not> entry_condition c i \<and> vertical_back c i
      then close_vertical c s (time c ! i) else Inr s)"
  using assms unfolding step_def entry_condition_def Let_def by simp

lemma open_step_horizontal:
  assumes "is_in_event s" "triggering_type s = Some ''horizontal''"
  shows "step c s i =
     (if \<not> in_cooldown s (time c ! i) \<and> \<not> entry_condition c i \<and> horizontal_back c i
      then close_horizontal c s (time c ! i) else Inr s)"
  using assms unfolding step_def entry_condition_def Let_def by simp

lemma stays:
  assumes "state_after c k = Inr s" "\<forall>i. k \<le> i \<and> i < m \<longrightarrow> step c s i = Inr s" "k \<le> m"
  shows "state_after c m = Inr s"
  using assms(3,2)
proof (induction m rule: dec_induct)
  case base
  show ?case by (rule assms(1))
next
  case (step n)
  then show ?case by (simp add: state_after_Suc)
qed

lemma reachable_open_start:
  assumes "state_after c k = Inr s" "is_in_event s"
  shows "\<exists>st. start_time s = Some st"
  using state_after_reachable [of c k] assms unfolding reachable_def by auto

section \<open>Properties of the first row and of the column check\<close>

lemma choose_min: "choose_horizontal_threshold (Some a) (Some b) = Some (min a b)"
  by (auto simp: choose_horizontal_threshold_def flt_def min_def)

lemma sublist_in_context:
  assumes "sublist xs ys"
  shows "sublist xs (ps @ ys @ ss)"
proof -
  obtain a b where "ys = a @ xs @ b"
    using assms unfolding sublist_def by blast
  then have "ps @ ys @ ss = (ps @ a) @ xs @ (b @ ss)"
    by simp
  then show ?thesis
    unfolding sublist_def by blast
qed

lemma sublist_py_join:
  assumes "x \<in> set xs"
  shows "sublist x (py_join sep xs)"
  using assms
proof (induction sep xs rule: py_join.induct)
  case (1 sep)
  then show ?case by simp
next
  case (2 sep y)
  then show ?case by simp
next
  case (3 sep y z zs)
  show ?case
  proof (cases "x = y")
    case True
    then show ?thesis by simp
  next
    case False
    then have "sublist x (py_join sep (z # zs))" using 3 by auto
    then have "sublist x ((y @ sep) @ py_join sep (z # zs) @ [])"
      by (rule sublist_in_context)
    then show ?thesis by simp
  qed
qed

lemma message_names:
  assumes "col \<in> set required_columns"
  shows "sublist col missing_columns_message"
proof -
  let ?pj = "py_join '', '' (map py_repr_str required_columns)"
  have s1: "sublist col (py_repr_str col)"
    unfolding py_repr_str_def by (rule sublist_appendI)
  have s2: "sublist (py_repr_str col) ?pj"
    using assms by (intro sublist_py_join) simp
  have s3: "sublist col ?pj"
    using s1 s2 by (rule sublist_order.order.trans)
  have "sublist col ((Fore_RED @ ''Excel file is missing required columns: '' @ ''['') @ ?pj @ '']'')"
    using s3 by (rule sublist_in_context)
  then show ?thesis
    unfolding missing_columns_message_def py_repr_list_def by simp
qed

section \<open>The examples, evaluated\<close>

lemma length_time_signals: "length (time (signals_from_row_7 n vs hs)) = n"
  by (simp add: signals_from_row_7_def sample_times_def)

lemma time_signals: "i < n \<Longrightarrow> time (signals_from_row_7 n vs hs) ! i = real i * time_interval"
  by (simp add: signals_from_row_7_def sample_times_def)

lemma open_since_simps:
  "is_in_event (open_since j ch)" "triggering_type (open_since j ch) = Some ch"
  "start_time (open_since j ch) = Some (real j * time_interval)" "events (open_since j ch) = []"
  "\<not> in_cooldown (open_since j ch) t"
  by (simp_all add: open_since_def in_cooldown_def)

lemma init_state_simps: "\<not> is_in_event init_state" "events init_state = []"
  by (simp_all add: init_state_def)

lemma prepare_short_blink: "prepare short_blink = Inr (signals_from_row_7 16 [1, 0] [0, 0])"
  by code_simp

lemma well_formed_short_blink: "well_formed short_blink"
  by code_simp

lemma short_blink_7: "state_after (signals_from_row_7 16 [1, 0] [0, 0]) 7 = Inr init_state"
  by code_simp

lemma short_blink_8:
  "state_after (signals_from_row_7 16 [1, 0] [0, 0]) 8 = Inr (open_since 7 ''vertical'')"
  by code_simp


lemma short_blink_16:
  "state_after (signals_from_row_7 16 [1, 0] [0, 0]) 16 =
     Inr \<lparr>events = [(7 * 0.002, 8 * 0.002 - 0.05, ''Blink'', None)], start_time = None,
          is_in_event = False, last_event_end_time = Some (8 * 0.002 - 0.05),
          triggering_type = None\<rparr>"
  by code_simp

lemma short_blink_events:
  "analyze_and_plot short_blink = Inr [(7 * 0.002, 8 * 0.002 - 0.05, ''Blink'', None)]"
  by (simp add: analyze_and_plot_def prepare_short_blink length_time_signals short_blink_16)

lemma prepare_vertical_hold: "prepare vertical_hold = Inr (signals_from_row_7 16 [2, 2] [0, 0])"
  by code_simp

lemma vertical_hold_8:
  "state_after (signals_from_row_7 16 [2, 2] [0, 0]) 8 = Inr (open_since 7 ''vertical'')"
  by code_simp

lemma vertical_hold_9:
  "state_after (signals_from_row_7 16 [2, 2] [0, 0]) 9 = Inr (open_since 7 ''vertical'')"
  by code_simp

lemma vertical_hold_16:
  "state_after (signals_from_row_7 16 [2, 2] [0, 0]) 16 = Inr (open_since 7 ''vertical'')"
  by code_simp

lemma vertical_hold_events: "analyze_and_plot vertical_hold = Inr []"
  by (simp add: analyze_and_plot_def prepare_vertical_hold length_time_signals vertical_hold_16
      open_since_simps)

lemma prepare_vertical_then_horizontal:
  "prepare vertical_then_horizontal = Inr (signals_from_row_7 16 [1, 0] [0, 3])"
  by code_simp

lemma vertical_then_horizontal_8:
  "state_after (signals_from_row_7 16 [1, 0] [0, 3]) 8 = Inr (open_since 7 ''vertical'')"
  by code_simp

lemma vertical_then_horizontal_9:
  "state_after (signals_from_row_7 16 [1, 0] [0, 3]) 9 = Inr (open_since 7 ''vertical'')"
  by code_simp

lemma prepare_horizontal_hold:
  "prepare horizontal_hold = Inr (signals_from_row_7 16 [0, 0] [3, 3])"
  by code_simp

lemma horizontal_hold_8:
  "state_after (signals_from_row_7 16 [0, 0] [3, 3]) 8 = Inr (open_since 7 ''horizontal'')"
  by code_simp

lemma horizontal_hold_9:
  "state_after (signals_from_row_7 16 [0, 0] [3, 3]) 9 = Inr (open_since 7 ''horizontal'')"
  by code_simp

lemma prepare_horizontal_then_vertical:
  "prepare horizontal_then_vertical = Inr (signals_from_row_7 16 [0, 1] [3, 0])"
  by code_simp

lemma horizontal_then_vertical_8:
  "state_after (signals_from_row_7 16 [0, 1] [3, 0]) 8 = Inr (open_since 7 ''horizontal'')"
  by code_simp

lemma horizontal_then_vertical_9:
  "state_after (signals_from_row_7 16 [0, 1] [3, 0]) 9 = Inr (open_since 7 ''horizontal'')"
  by code_simp

lemma prepare_both_channels:
  "prepare both_channels = Inr (signals_from_row_7 16 [2, 2] [3, 3])"
  by code_simp

lemma both_channels_7: "state_after (signals_from_row_7 16 [2, 2] [3, 3]) 7 = Inr init_state"
  by code_simp

lemma both_channels_8:
  "state_after (signals_from_row_7 16 [2, 2] [3, 3]) 8 = Inr (open_since 7 ''horizontal'')"
  by code_simp

lemma prepare_vertical_release:
  "prepare vertical_release = Inr (signals_from_row_7 17 [2, 1, 0] [0, 0, 0])"
  by code_simp

lemma vertical_release_8:
  "state_after (signals_from_row_7 17 [2, 1, 0] [0, 0, 0]) 8 = Inr (open_since 7 ''vertical'')"
  by code_simp

lemma prepare_horizontal_release:
  "prepare horizontal_release = Inr (signals_from_row_7 17 [0, 0, 0] [6, 3, 0])"
  by code_simp

lemma horizontal_release_8:
  "state_after (signals_from_row_7 17 [0, 0, 0] [6, 3, 0]) 8 = Inr (open_since 7 ''horizontal'')"
  by code_simp

lemma prepare_signed_peaks:
  "prepare signed_peaks =
     Inr \<lparr>time = [0], voltage_smooth = [None], voltage_0_smooth = [None],
          vertical_baseline = Some 0, horizontal_baseline = Some 0,
          vertical_threshold = Some 1, horizontal_threshold = Some (- 1)\<rparr>"
  by code_simp

lemma signed_peaks_first_row:
  "first_row (normalize_columns signed_peaks) ''voltage_0 (negative peak)'' = Inr (Some (- 1))"
  "first_row (normalize_columns signed_peaks) ''voltage_0 (positive peak)'' = Inr (Some 2)"
  by code_simp+

lemma prepare_two_blinks:
  "prepare two_blinks =
     Inr (signals_from_row_7 35 (replicate 18 1 @ [14 / 15, 29 / 15, - (2 / 15)]) (replicate 21 0))"
  by code_simp

lemma well_formed_two_blinks: "well_formed two_blinks"
  by code_simp

lemma two_blinks_35:
  "state_after
     (signals_from_row_7 35 (replicate 18 1 @ [14 / 15, 29 / 15, - (2 / 15)]) (replicate 21 0)) 35 =
     Inr \<lparr>events = [(7 * 0.002, 25 * 0.002 - 0.05, ''Blink'', None),
                    (26 * 0.002, 27 * 0.002 - 0.05, ''Blink'', None)],
          start_time = None, is_in_event = False,
          last_event_end_time = Some (27 * 0.002 - 0.05), triggering_type = None\<rparr>"
  by code_simp

lemma two_blinks_events:
  "analyze_and_plot two_blinks =
     Inr [(7 * 0.002, 25 * 0.002 - 0.05, ''Blink'', None),
          (26 * 0.002, 27 * 0.002 - 0.05, ''Blink'', None)]"
  by (simp add: analyze_and_plot_def prepare_two_blinks length_time_signals two_blinks_35)

section \<open>The cooldown\<close>

lemma cooldown_kept_append:
  assumes "cooldown_kept s" "is_in_event s" "start_time s = Some st"
    and "events s' = events s @ [(st, en, ty, d)]" "last_event_end_time s' = Some en"
    and "\<not> is_in_event s'"
  shows "cooldown_kept s'"
proof -
  have last: "last_event_end_time s' = (if events s' = [] then None else Some (fst (snd (last (events s')))))"
    using assms(4,5) by simp
  have pairs: "fst (snd (events s' ! i)) + cooldown_time \<le> fst (events s' ! Suc i)"
    if "Suc i < length (events s')" "fst (snd (events s' ! i)) \<noteq> 0" for i
  proof (cases "Suc i < length (events s)")
    case True
    then have "events s' ! i = events s ! i" "events s' ! Suc i = events s ! Suc i"
      using assms(4) by (simp_all add: nth_append)
    then show ?thesis
      using assms(1) True that(2) unfolding cooldown_kept_def by auto
  next
    case False
    then have i: "Suc i = length (events s)"
      using that(1) assms(4) by simp
    then have ne: "events s \<noteq> []" by auto
    have idx: "i = length (events s) - 1"
      using i by simp
    have at_i: "events s' ! i = last (events s)"
      using ne assms(4) unfolding idx by (simp add: nth_append last_conv_nth)
    have at_Suc: "events s' ! Suc i = (st, en, ty, d)"
      using i assms(4) by (simp add: nth_append)
    have "last_event_end_time s = Some (fst (snd (last (events s))))"
      using assms(1) ne unfolding cooldown_kept_def by simp
    then have "fst (snd (last (events s))) + cooldown_time \<le> st"
      using assms(1,2,3) that(2) at_i unfolding cooldown_kept_def by auto
    then show ?thesis
      using at_i at_Suc by simp
  qed
  show ?thesis
    unfolding cooldown_kept_def using last pairs assms(6) by blast
qed

lemma cooldown_kept_step:
  assumes "cooldown_kept s" "step c s k = Inr s'"
  shows "cooldown_kept s'"
proof (cases rule: step_cases [of c s k])
  case same
  then show ?thesis using assms by simp
next
  case opened
  then have s': "s' = s\<lparr>is_in_event := True, start_time := Some (time c ! k),
          triggering_type := Some (if horizontal_over c k then ''horizontal'' else ''vertical'')\<rparr>"
    using assms(2) by simp
  have "e + cooldown_time \<le> time c ! k" if "last_event_end_time s = Some e" "e \<noteq> 0" for e
    using opened(1) that unfolding in_cooldown_def by simp
  then show ?thesis
    using assms(1) unfolding cooldown_kept_def s' by auto
next
  case closed_h
  then have cl: "close_horizontal c s (time c ! k) = Inr s'" using assms(2) by simp
  then obtain st where st: "start_time s = Some st"
    unfolding close_horizontal_def Let_def by (auto split: option.splits)
  show ?thesis
    using cl st cooldown_kept_append [OF assms(1) closed_h(3) st, of s']
    unfolding close_horizontal_def Let_def by auto
next
  case closed_v
  then have cl: "close_vertical c s (time c ! k) = Inr s'" using assms(2) by simp
  then obtain st where st: "start_time s = Some st"
    unfolding close_vertical_def Let_def by (auto split: option.splits)
  show ?thesis
    using cl st cooldown_kept_append [OF assms(1) closed_v(3) st, of s']
    unfolding close_vertical_def Let_def by (auto split: if_splits)
qed

lemma cooldown_kept_init: "cooldown_kept init_state"
  by (simp add: cooldown_kept_def init_state_def)

lemma state_after_cooldown_kept:
  assumes "state_after c k = Inr s"
  shows "cooldown_kept s"
  using assms
proof (induction k arbitrary: s)
  case 0
  then show ?case by (simp add: state_after_0 cooldown_kept_init)
next
  case (Suc k)
  then show ?case
    by (auto simp: state_after_Suc split: sum.splits intro: cooldown_kept_step)
qed

lemma cooldown_after_nonzero_end:
  assumes "analyze_and_plot raw = Inr evs" "Suc i < length evs" "fst (snd (evs ! i)) \<noteq> 0"
  shows "fst (snd (evs ! i)) + cooldown_time \<le> fst (evs ! Suc i)"
proof -
  from assms(1) obtain c s where "state_after c (length (time c)) = Inr s" "evs = events s"
    unfolding analyze_and_plot_def by (auto split: sum.splits)
  then show ?thesis
    using state_after_cooldown_kept [of c "length (time c)" s] assms(2,3)
    unfolding cooldown_kept_def by blast
qed

section \<open>The claims\<close>

text \<open>
  C1 (as amended). An event that is open with the triggering channel \<open>vertical\<close> is closed
  at the first later row, outside the cooldown, at which the entry test of line 80 fails
  (neither channel is over its entry threshold) and
  \<open>|smooth_vertical - vertical_baseline| \<le> 3 * vertical_threshold\<close>; until that row the state
  of the detector does not change. The entry test comes first in the loop, so the exit
  depends on the horizontal channel of that row as well.
\<close>

theorem vertical_event_exit:
  assumes "state_after c k = Inr s" "is_in_event s" "triggering_type s = Some ''vertical''"
    and "k \<le> m"
    and "\<forall>i. k \<le> i \<and> i < m \<longrightarrow>
           \<not> (\<not> in_cooldown s (time c ! i) \<and> \<not> entry_condition c i \<and> vertical_back c i)"
    and "\<not> in_cooldown s (time c ! m)" "\<not> entry_condition c m" "vertical_back c m"
  shows "(\<forall>i. k \<le> i \<and> i \<le> m \<longrightarrow> state_after c i = Inr s)
       \<and> (\<exists>s' st ty d. state_after c (Suc m) = Inr s' \<and> \<not> is_in_event s'
             \<and> start_time s = Some st
             \<and> events s' = events s @ [(st, time c ! m - time_advance, ty, d)])"
proof -
  have same: "\<forall>i. k \<le> i \<and> i < m \<longrightarrow> step c s i = Inr s"
    using assms(5) open_step_vertical [OF assms(2,3)] by auto
  have before: "state_after c i = Inr s" if "k \<le> i" "i \<le> m" for i
    using stays [OF assms(1) _ that(1)] same that(2) by auto
  obtain st where st: "start_time s = Some st"
    using reachable_open_start [OF assms(1,2)] by blast
  have "step c s m = close_vertical c s (time c ! m)"
    using open_step_vertical [OF assms(2,3)] assms(6,7,8) by simp
  then have "state_after c (Suc m) = close_vertical c s (time c ! m)"
    using before [of m] assms(4) by (simp add: state_after_Suc)
  then have "\<exists>s' ty d. state_after c (Suc m) = Inr s' \<and> \<not> is_in_event s'
             \<and> events s' = events s @ [(st, time c ! m - time_advance, ty, d)]"
    unfolding close_vertical_def Let_def using st by (auto split: prod.splits)
  then show ?thesis
    using before st by blast
qed

theorem vertical_event_exit_witness:
  "state_after (signals_from_row_7 17 [2, 1, 0] [0, 0, 0]) 8 = Inr (open_since 7 ''vertical'')
   \<and> state_after (signals_from_row_7 17 [2, 1, 0] [0, 0, 0]) 9 = Inr (open_since 7 ''vertical'')
   \<and> (\<exists>s' st ty d. state_after (signals_from_row_7 17 [2, 1, 0] [0, 0, 0]) (Suc 9) = Inr s' \<and> \<not> is_in_event s'
         \<and> start_time (open_since 7 ''vertical'') = Some st
         \<and> events s' = events (open_since 7 ''vertical'') @ [(st, time (signals_from_row_7 17 [2, 1, 0] [0, 0, 0]) ! 9 - time_advance, ty, d)])"
proof -
  let ?c = "signals_from_row_7 17 [2, 1, 0] [0, 0, 0]"
  let ?s = "open_since 7 ''vertical''"
  have h1: "state_after ?c 8 = Inr ?s" by (rule vertical_release_8)
  have h2: "is_in_event ?s" by (simp add: open_since_simps)
  have h3: "triggering_type ?s = Some ''vertical''" by (simp add: open_since_simps)
  have h4: "(8::nat) \<le> 9" by simp
  have e8: "entry_condition ?c 8" by code_simp
  have h5: "\<forall>i. 8 \<le> i \<and> i < 9 \<longrightarrow>
           \<not> (\<not> in_cooldown ?s (time ?c ! i) \<and> \<not> entry_condition ?c i \<and> vertical_back ?c i)"
  proof (intro allI impI)
    fix i :: nat
    assume "8 \<le> i \<and> i < 9"
    then have "i = 8" by simp
    then show "\<not> (\<not> in_cooldown ?s (time ?c ! i) \<and> \<not> entry_condition ?c i \<and> vertical_back ?c i)"
      using e8 by simp
  qed
  have h6: "\<not> in_cooldown ?s (time ?c ! 9)" by (simp add: open_since_simps)
  have h7: "\<not> entry_condition ?c 9" by code_simp
  have h8: "vertical_back ?c 9" by code_simp
  note t = vertical_event_exit [OF h1 h2 h3 h4 h5 h6 h7 h8]
  have all: "\<forall>i. 8 \<le> i \<and> i \<le> 9 \<longrightarrow> state_after ?c i = Inr ?s"
    using t by (rule conjunct1)
  have a9: "state_after ?c 9 = Inr ?s"
    using all [rule_format, of 9] by simp
  have ex: "\<exists>s' st ty d. state_after ?c (Suc 9) = Inr s' \<and> \<not> is_in_event s'
         \<and> start_time ?s = Some st
         \<and> events s' = events ?s @ [(st, time ?c ! 9 - time_advance, ty, d)]"
    using t by (rule conjunct2)
  show ?thesis
    by (intro conjI h1 a9 ex)
qed

text \<open>
  The claim as stated fails: in \<open>vertical_hold\<close> the event opened at row 7 is not closed at
  row 8, where the vertical inequality holds (2 is at most 3); in
  \<open>vertical_then_horizontal\<close> it is not closed at row 8 either, where the vertical channel
  is back at its baseline and the horizontal channel is over its entry threshold.
\<close>

theorem vertical_exit_counterexample:
  "prepare vertical_hold = Inr (signals_from_row_7 16 [2, 2] [0, 0])
   \<and> state_after (signals_from_row_7 16 [2, 2] [0, 0]) 8 = Inr (open_since 7 ''vertical'')
   \<and> is_in_event (open_since 7 ''vertical'')
   \<and> \<not> in_cooldown (open_since 7 ''vertical'') (time (signals_from_row_7 16 [2, 2] [0, 0]) ! 8)
   \<and> vertical_back (signals_from_row_7 16 [2, 2] [0, 0]) 8
   \<and> state_after (signals_from_row_7 16 [2, 2] [0, 0]) 9 = Inr (open_since 7 ''vertical'')
   \<and> prepare vertical_then_horizontal = Inr (signals_from_row_7 16 [1, 0] [0, 3])
   \<and> state_after (signals_from_row_7 16 [1, 0] [0, 3]) 8 = Inr (open_since 7 ''vertical'')
   \<and> \<not> in_cooldown (open_since 7 ''vertical'') (time (signals_from_row_7 16 [1, 0] [0, 3]) ! 8)
   \<and> vertical_back (signals_from_row_7 16 [1, 0] [0, 3]) 8
   \<and> \<not> vertical_over (signals_from_row_7 16 [1, 0] [0, 3]) 8
   \<and> horizontal_over (signals_from_row_7 16 [1, 0] [0, 3]) 8
   \<and> state_after (signals_from_row_7 16 [1, 0] [0, 3]) 9 = Inr (open_since 7 ''vertical'')"
proof -
  have a: "vertical_back (signals_from_row_7 16 [2, 2] [0, 0]) 8" by code_simp
  have b: "vertical_back (signals_from_row_7 16 [1, 0] [0, 3]) 8" by code_simp
  have c: "\<not> vertical_over (signals_from_row_7 16 [1, 0] [0, 3]) 8" by code_simp
  have d: "horizontal_over (signals_from_row_7 16 [1, 0] [0, 3]) 8" by code_simp
  show ?thesis
    by (intro conjI prepare_vertical_hold vertical_hold_8 vertical_hold_9 prepare_vertical_then_horizontal vertical_then_horizontal_8 vertical_then_horizontal_9
        open_since_simps a b c d)
qed

text \<open>
  C2 (as amended). An event that is open with the triggering channel \<open>horizontal\<close> is closed
  at the first later row, outside the cooldown, at which the entry test of line 80 fails
  (neither channel is over its entry threshold) and
  \<open>|smooth_horizontal - horizontal_baseline| \<le> 3 * horizontal_threshold\<close>; until that row
  the state of the detector does not change. The exit depends on the vertical channel of
  that row as well, and a horizontal deviation of exactly three thresholds does not close.
\<close>

theorem horizontal_event_exit:
  assumes "state_after c k = Inr s" "is_in_event s" "triggering_type s = Some ''horizontal''"
    and "k \<le> m"
    and "\<forall>i. k \<le> i \<and> i < m \<longrightarrow>
           \<not> (\<not> in_cooldown s (time c ! i) \<and> \<not> entry_condition c i \<and> horizontal_back c i)"
    and "\<not> in_cooldown s (time c ! m)" "\<not> entry_condition c m" "horizontal_back c m"
  shows "(\<forall>i. k \<le> i \<and> i \<le> m \<longrightarrow> state_after c i = Inr s)
       \<and> (\<exists>s' st ty d. state_after c (Suc m) = Inr s' \<and> \<not> is_in_event s'
             \<and> start_time s = Some st
             \<and> events s' = events s @ [(st, time c ! m - time_advance, ty, d)])"
proof -
  have same: "\<forall>i. k \<le> i \<and> i < m \<longrightarrow> step c s i = Inr s"
    using assms(5) open_step_horizontal [OF assms(2,3)] by auto
  have before: "state_after c i = Inr s" if "k \<le> i" "i \<le> m" for i
    using stays [OF assms(1) _ that(1)] same that(2) by auto
  obtain st where st: "start_time s = Some st"
    using reachable_open_start [OF assms(1,2)] by blast
  have "step c s m = close_horizontal c s (time c ! m)"
    using open_step_horizontal [OF assms(2,3)] assms(6,7,8) by simp
  then have "state_after c (Suc m) = close_horizontal c s (time c ! m)"
    using before [of m] assms(4) by (simp add: state_after_Suc)
  then have "\<exists>s' ty d. state_after c (Suc m) = Inr s' \<and> \<not> is_in_event s'
             \<and> events s' = events s @ [(st, time c ! m - time_advance, ty, d)]"
    unfolding close_horizontal_def Let_def using st by auto
  then show ?thesis
    using before st by blast
qed

theorem horizontal_event_exit_witness:
  "state_after (signals_from_row_7 17 [0, 0, 0] [6, 3, 0]) 8 = Inr (open_since 7 ''horizontal'')
   \<and> state_after (signals_from_row_7 17 [0, 0, 0] [6, 3, 0]) 9 = Inr (open_since 7 ''horizontal'')
   \<and> (\<exists>s' st ty d. state_after (signals_from_row_7 17 [0, 0, 0] [6, 3, 0]) (Suc 9) = Inr s' \<and> \<not> is_in_event s'
         \<and> start_time (open_since 7 ''horizontal'') = Some st
         \<and> events s' = events (open_since 7 ''horizontal'') @ [(st, time (signals_from_row_7 17 [0, 0, 0] [6, 3, 0]) ! 9 - time_advance, ty, d)])"
proof -
  let ?c = "signals_from_row_7 17 [0, 0, 0] [6, 3, 0]"
  let ?s = "open_since 7 ''horizontal''"
  have h1: "state_after ?c 8 = Inr ?s" by (rule horizontal_release_8)
  have h2: "is_in_event ?s" by (simp add: open_since_simps)
  have h3: "triggering_type ?s = Some ''horizontal''" by (simp add: open_since_simps)
  have h4: "(8::nat) \<le> 9" by simp
  have e8: "entry_condition ?c 8" by code_simp
  have h5: "\<forall>i. 8 \<le> i \<and> i < 9 \<longrightarrow>
           \<not> (\<not> in_cooldown ?s (time ?c ! i) \<and> \<not> entry_condition ?c i \<and> horizontal_back ?c i)"
  proof (intro allI impI)
    fix i :: nat
    assume "8 \<le> i \<and> i < 9"
    then have "i = 8" by simp
    then show "\<not> (\<not> in_cooldown ?s (time ?c ! i) \<and> \<not> entry_condition ?c i \<and> horizontal_back ?c i)"
      using e8 by simp
  qed
  have h6: "\<not> in_cooldown ?s (time ?c ! 9)" by (simp add: open_since_simps)
  have h7: "\<not> entry_condition ?c 9" by code_simp
  have h8: "horizontal_back ?c 9" by code_simp
  note t = horizontal_event_exit [OF h1 h2 h3 h4 h5 h6 h7 h8]
  have all: "\<forall>i. 8 \<le> i \<and> i \<le> 9 \<longrightarrow> state_after ?c i = Inr ?s"
    using t by (rule conjunct1)
  have a9: "state_after ?c 9 = Inr ?s"
    using all [rule_format, of 9] by simp
  have ex: "\<exists>s' st ty d. state_after ?c (Suc 9) = Inr s' \<and> \<not> is_in_event s'
         \<and> start_time ?s = Some st
         \<and> events s' = events ?s @ [(st, time ?c ! 9 - time_advance, ty, d)]"
    using t by (rule conjunct2)
  show ?thesis
    by (intro conjI h1 a9 ex)
qed

text \<open>
  The claim as stated fails: in \<open>horizontal_hold\<close> the event opened at row 7 is not closed
  at row 8, where the horizontal inequality holds (3 is at most 3); in
  \<open>horizontal_then_vertical\<close> it is not closed at row 8 either, where the horizontal
  channel is back at its baseline and the vertical channel is over its entry threshold.
\<close>

theorem horizontal_exit_counterexample:
  "prepare horizontal_hold = Inr (signals_from_row_7 16 [0, 0] [3, 3])
   \<and> state_after (signals_from_row_7 16 [0, 0] [3, 3]) 8 = Inr (open_since 7 ''horizontal'')
   \<and> is_in_event (open_since 7 ''horizontal'')
   \<and> \<not> in_cooldown (open_since 7 ''horizontal'') (time (signals_from_row_7 16 [0, 0] [3, 3]) ! 8)
   \<and> horizontal_back (signals_from_row_7 16 [0, 0] [3, 3]) 8
   \<and> state_after (signals_from_row_7 16 [0, 0] [3, 3]) 9 = Inr (open_since 7 ''horizontal'')
   \<and> prepare horizontal_then_vertical = Inr (signals_from_row_7 16 [0, 1] [3, 0])
   \<and> state_after (signals_from_row_7 16 [0, 1] [3, 0]) 8 = Inr (open_since 7 ''horizontal'')
   \<and> \<not> in_cooldown (open_since 7 ''horizontal'') (time (signals_from_row_7 16 [0, 1] [3, 0]) ! 8)
   \<and> horizontal_back (signals_from_row_7 16 [0, 1] [3, 0]) 8
   \<and> \<not> horizontal_over (signals_from_row_7 16 [0, 1] [3, 0]) 8
   \<and> vertical_over (signals_from_row_7 16 [0, 1] [3, 0]) 8
   \<and> state_after (signals_from_row_7 16 [0, 1] [3, 0]) 9 = Inr (open_since 7 ''horizontal'')"
proof -
  have a: "horizontal_back (signals_from_row_7 16 [0, 0] [3, 3]) 8" by code_simp
  have b: "horizontal_back (signals_from_row_7 16 [0, 1] [3, 0]) 8" by code_simp
  have c: "\<not> horizontal_over (signals_from_row_7 16 [0, 1] [3, 0]) 8" by code_simp
  have d: "vertical_over (signals_from_row_7 16 [0, 1] [3, 0]) 8" by code_simp
  show ?thesis
    by (intro conjI prepare_horizontal_hold horizontal_hold_8 horizontal_hold_9 prepare_horizontal_then_vertical horizontal_then_vertical_8 horizontal_then_vertical_9
        open_since_simps a b c d)
qed

text \<open>
  C3 (as amended). The horizontal threshold read from the first row is the cell
  \<open>voltage_0 (negative peak)\<close> when it is less than the cell \<open>voltage_0 (positive peak)\<close>,
  and the latter otherwise: for two numbers, the minimum of the two signed values. No
  absolute value is taken, so it is the minimum of the two magnitudes only when the two
  minima agree.
\<close>

theorem horizontal_threshold_is_signed_min:
  assumes "prepare raw = Inr c"
    and "first_row (normalize_columns raw) ''voltage_0 (negative peak)'' = Inr (Some a)"
    and "first_row (normalize_columns raw) ''voltage_0 (positive peak)'' = Inr (Some b)"
  shows "horizontal_threshold c = Some (min a b)
       \<and> (horizontal_threshold c = Some (min \<bar>a\<bar> \<bar>b\<bar>) \<longleftrightarrow> min a b = min \<bar>a\<bar> \<bar>b\<bar>)"
proof -
  have "horizontal_threshold c = choose_horizontal_threshold (Some a) (Some b)"
    using assms unfolding prepare_def Let_def read_thresholds_def signals_of_def
    by (auto split: if_splits sum.splits)
  then show ?thesis
    by (simp add: choose_min)
qed

theorem horizontal_threshold_is_signed_min_witness:
  "horizontal_threshold
     \<lparr>time = [0], voltage_smooth = [None], voltage_0_smooth = [None],
      vertical_baseline = Some 0, horizontal_baseline = Some 0,
      vertical_threshold = Some 1, horizontal_threshold = Some (- 1)\<rparr> = Some (min (- 1) 2)
   \<and> (horizontal_threshold
     \<lparr>time = [0], voltage_smooth = [None], voltage_0_smooth = [None],
      vertical_baseline = Some 0, horizontal_baseline = Some 0,
      vertical_threshold = Some 1, horizontal_threshold = Some (- 1)\<rparr> = Some (min \<bar>- 1\<bar> \<bar>2\<bar>)
      \<longleftrightarrow> min (- 1) 2 = min \<bar>- 1 :: real\<bar> \<bar>2\<bar>)"
  by (rule horizontal_threshold_is_signed_min
      [OF prepare_signed_peaks signed_peaks_first_row(1) signed_peaks_first_row(2)])

text \<open>
  The claim as stated fails on a negative peak recorded with its sign: the threshold is
  -1, the minimum of the magnitudes is 1.
\<close>

theorem horizontal_threshold_counterexample:
  "first_row (normalize_columns signed_peaks) ''voltage_0 (negative peak)'' = Inr (Some (- 1))
   \<and> first_row (normalize_columns signed_peaks) ''voltage_0 (positive peak)'' = Inr (Some 2)
   \<and> prepare signed_peaks =
       Inr \<lparr>time = [0], voltage_smooth = [None], voltage_0_smooth = [None],
            vertical_baseline = Some 0, horizontal_baseline = Some 0,
            vertical_threshold = Some 1, horizontal_threshold = Some (- 1)\<rparr>
   \<and> Some (- 1 :: real) \<noteq> Some (min \<bar>- 1\<bar> \<bar>2\<bar>)"
proof -
  have "Some (- 1 :: real) \<noteq> Some (min \<bar>- 1\<bar> \<bar>2\<bar>)" by simp
  then show ?thesis
    by (intro conjI signed_peaks_first_row prepare_signed_peaks)
qed




text \<open>
  C5. After an event the detector skips every row whose time is less than the end time of
  the event plus the cooldown of 0.5 s, so no event starts there. The program does not
  when the end time is exactly 0: line 76 tests \<open>last_event_end_time\<close> for truth, and the
  float 0.0 is false. In \<open>two_blinks\<close> the first event is closed at row 25 (0.05 s), its end
  time is 0, and the second event starts at row 26, at 0.052 s. After every other end time
  the cooldown is kept (lemma \<open>cooldown_after_nonzero_end\<close>).
\<close>

theorem cooldown_skipped_after_end_time_zero:
  "well_formed two_blinks
   \<and> analyze_and_plot two_blinks =
       Inr [(7 * 0.002, 25 * 0.002 - 0.05, ''Blink'', None),
            (26 * 0.002, 27 * 0.002 - 0.05, ''Blink'', None)]
   \<and> (25 * 0.002 - 0.05 :: real) = 0
   \<and> (26 * 0.002 :: real) < (25 * 0.002 - 0.05) + cooldown_time"
proof -
  have a: "(25 * 0.002 - 0.05 :: real) = 0" by simp
  have b: "(26 * 0.002 :: real) < (25 * 0.002 - 0.05) + cooldown_time"
    by (simp add: cooldown_time_def)
  show ?thesis
    by (intro conjI well_formed_two_blinks two_blinks_events a b)
qed



text \<open>
  C7. When a required column is missing from the table, its names stripped of surrounding
  whitespace and put in lower case, the analysis raises a \<open>ValueError\<close> whose message holds
  the list of the required names, and every one of them. It is raised by the check of
  lines 33 and 34, before the table is smoothed and scanned: the result is the error, and
  no event.
\<close>

theorem missing_column_error:
  assumes "col \<in> set required_columns" "col \<notin> set (map (\<lambda>name. lower (strip name)) (map fst raw))"
  shows "prepare raw = Inl (ValueError missing_columns_message)
       \<and> analyze_and_plot raw = Inl (ValueError missing_columns_message)
       \<and> sublist (py_repr_list required_columns) missing_columns_message
       \<and> (\<forall>name \<in> set required_columns. sublist name missing_columns_message)"
proof -
  have names: "map fst (normalize_columns raw) = map (\<lambda>name. lower (strip name)) (map fst raw)"
    unfolding normalize_columns_def by (induction raw) auto
  have "\<not> list_all (\<lambda>col. col \<in> set (map fst (normalize_columns raw))) required_columns"
    using assms unfolding names list_all_iff by blast
  then have p: "prepare raw = Inl (ValueError missing_columns_message)"
    unfolding prepare_def Let_def by simp
  then have "analyze_and_plot raw = Inl (ValueError missing_columns_message)"
    unfolding analyze_and_plot_def by simp
  moreover have "sublist (py_repr_list required_columns) missing_columns_message"
    unfolding missing_columns_message_def
    using sublist_in_context [of "py_repr_list required_columns" "py_repr_list required_columns"
        "Fore_RED @ ''Excel file is missing required columns: ''" "[]"]
    by simp
  ultimately show ?thesis
    using p message_names by blast
qed

theorem missing_column_error_witness:
  "prepare missing_negative_peak = Inl (ValueError missing_columns_message)
   \<and> analyze_and_plot missing_negative_peak = Inl (ValueError missing_columns_message)
   \<and> sublist (py_repr_list required_columns) missing_columns_message
   \<and> sublist ''voltage_0 (negative peak)'' missing_columns_message"
proof -
  have h1: "''voltage_0 (negative peak)'' \<in> set required_columns"
    by (simp add: required_columns_def)
  have h2: "''voltage_0 (negative peak)''
            \<notin> set (map (\<lambda>name. lower (strip name)) (map fst missing_negative_peak))"
    by code_simp
  note t = missing_column_error [OF h1 h2]
  show ?thesis
    using t h1 by blast
qed

text \<open>
  C9 (as amended). At a row where an event starts, the triggering channel recorded is
  \<open>horizontal\<close> exactly when the horizontal entry test
  \<open>|smooth_horizontal - horizontal_baseline| \<ge> 3 * horizontal_threshold\<close> holds at that row,
  whether the vertical one holds or not, and \<open>vertical\<close> exactly when only the vertical
  entry test holds. At a row where both hold, the triggering channel is \<open>horizontal\<close>.
\<close>

theorem triggering_channel_at_start:
  assumes "state_after c k = Inr s" "state_after c (Suc k) = Inr s'"
    "\<not> is_in_event s" "is_in_event s'"
  shows "entry_condition c k \<and> start_time s' = Some (time c ! k)
       \<and> (triggering_type s' = Some ''horizontal'' \<longleftrightarrow> horizontal_over c k)
       \<and> (triggering_type s' = Some ''vertical'' \<longleftrightarrow> vertical_over c k \<and> \<not> horizontal_over c k)"
proof -
  have st: "step c s k = Inr s'"
    using assms(1,2) by (simp add: state_after_Suc)
  show ?thesis
  proof (cases rule: step_cases [of c s k])
    case same
    then show ?thesis using st assms(3,4) by simp
  next
    case opened
    then show ?thesis using st unfolding entry_condition_def by auto
  next
    case closed_h
    then show ?thesis using assms(3) by simp
  next
    case closed_v
    then show ?thesis using assms(3) by simp
  qed
qed

theorem triggering_channel_at_start_witness:
  "entry_condition (signals_from_row_7 16 [1, 0] [0, 0]) 7
   \<and> start_time (open_since 7 ''vertical'') = Some (time (signals_from_row_7 16 [1, 0] [0, 0]) ! 7)
   \<and> (triggering_type (open_since 7 ''vertical'') = Some ''horizontal'' \<longleftrightarrow> horizontal_over (signals_from_row_7 16 [1, 0] [0, 0]) 7)
   \<and> (triggering_type (open_since 7 ''vertical'') = Some ''vertical''
        \<longleftrightarrow> vertical_over (signals_from_row_7 16 [1, 0] [0, 0]) 7 \<and> \<not> horizontal_over (signals_from_row_7 16 [1, 0] [0, 0]) 7)"
proof -
  let ?c = "signals_from_row_7 16 [1, 0] [0, 0]"
  have h1: "state_after ?c 7 = Inr init_state" by (rule short_blink_7)
  have h2: "state_after ?c (Suc 7) = Inr (open_since 7 ''vertical'')" using short_blink_8 by simp
  have h3: "\<not> is_in_event init_state" by (simp add: init_state_simps)
  have h4: "is_in_event (open_since 7 ''vertical'')" by (simp add: open_since_simps)
  show ?thesis
    by (rule triggering_channel_at_start [OF h1 h2 h3 h4])
qed

text \<open>
  The claim as stated fails at a row where both entry tests hold: in \<open>both_channels\<close> the
  event that starts at row 7 has the triggering channel \<open>horizontal\<close>.
\<close>

theorem both_conditions_counterexample:
  "prepare both_channels = Inr (signals_from_row_7 16 [2, 2] [3, 3])
   \<and> state_after (signals_from_row_7 16 [2, 2] [3, 3]) 7 = Inr init_state
   \<and> \<not> is_in_event init_state
   \<and> vertical_over (signals_from_row_7 16 [2, 2] [3, 3]) 7
   \<and> horizontal_over (signals_from_row_7 16 [2, 2] [3, 3]) 7
   \<and> state_after (signals_from_row_7 16 [2, 2] [3, 3]) 8 = Inr (open_since 7 ''horizontal'')
   \<and> is_in_event (open_since 7 ''horizontal'')
   \<and> triggering_type (open_since 7 ''horizontal'') = Some ''horizontal''
   \<and> triggering_type (open_since 7 ''horizontal'') \<noteq> Some ''vertical''"
proof -
  have a: "vertical_over (signals_from_row_7 16 [2, 2] [3, 3]) 7" by code_simp
  have b: "horizontal_over (signals_from_row_7 16 [2, 2] [3, 3]) 7" by code_simp
  have c: "triggering_type (open_since 7 ''horizontal'') \<noteq> Some ''vertical''"
    by (simp add: open_since_simps)
  show ?thesis
    by (intro conjI prepare_both_channels both_channels_7 both_channels_8 init_state_simps
        open_since_simps a b c)
qed

text \<open>
  C10. No event of the result of a well-formed table starts at one of the first 7 or of the
  last 7 rows: the start time of every event is the time of a row from the eighth on and
  before the last seven. The window of 15 rows does not cover the other rows, their
  smoothed values are missing, and no comparison with a missing value holds.
\<close>

theorem start_not_at_edge:
  assumes "well_formed raw" "analyze_and_plot raw = Inr evs" "(st, en, ty, d) \<in> set evs"
  shows "(\<exists>j. 7 \<le> j \<and> j + 7 < df_len raw \<and> st = real j * time_interval)
       \<and> (\<forall>i < df_len raw. i < 7 \<or> df_len raw \<le> i + 7 \<longrightarrow> st \<noteq> real i * time_interval)"
proof -
  obtain c where c: "prepare raw = Inr c" and r: "recorded c (df_len raw) (st, en, ty, d)"
    using analyze_events_recorded [OF assms(2,3)] by blast
  from r obtain j m where jm: "j < m" "m < df_len raw" "entry_condition c j" "st = time c ! j"
    unfolding recorded_def by auto
  have t: "time c = sample_times (df_len raw)"
    using prepare_signals(1) [OF c] .
  have st: "st = real j * time_interval"
    using jm t by (simp add: nth_sample_times)
  have inner: "7 \<le> j \<and> j + 7 < df_len raw"
    using entry_condition_inner [OF assms(1) c _ jm(3)] jm(1,2) by simp
  have "st \<noteq> real i * time_interval" if "i < 7 \<or> df_len raw \<le> i + 7" for i
  proof -
    have "i \<noteq> j" using that inner by auto
    then show ?thesis
      unfolding st time_interval_def by simp
  qed
  then show ?thesis
    using inner st by blast
qed

theorem start_not_at_edge_witness:
  "well_formed short_blink
   \<and> (\<exists>j. 7 \<le> j \<and> j + 7 < df_len short_blink \<and> 7 * 0.002 = real j * time_interval)
   \<and> (7 * 0.002 :: real) \<noteq> real (3::nat) * time_interval"
proof -
  have h: "(7 * 0.002, 8 * 0.002 - 0.05, ''Blink'', None)
           \<in> set [(7 * 0.002 :: real, 8 * 0.002 - 0.05 :: real, ''Blink'', None :: string option)]"
    by simp
  note t = start_not_at_edge [OF well_formed_short_blink short_blink_events h]
  have n: "(3::nat) < df_len short_blink" by code_simp
  have a: "\<exists>j. 7 \<le> j \<and> j + 7 < df_len short_blink \<and> 7 * 0.002 = real j * time_interval"
    using t by (rule conjunct1)
  have all: "\<forall>i < df_len short_blink. i < 7 \<or> df_len short_blink \<le> i + 7
          \<longrightarrow> (7 * 0.002 :: real) \<noteq> real i * time_interval"
    using t by (rule conjunct2)
  have "(3::nat) < 7 \<or> df_len short_blink \<le> 3 + 7" by simp
  then have b: "(7 * 0.002 :: real) \<noteq> real (3::nat) * time_interval"
    by (rule all [rule_format, OF n])
  show ?thesis
    by (intro conjI well_formed_short_blink a b)
qed

end
